theory Spec2Isabelle
  imports Main "HOL-Library.AList" "HOL-Library.Multiset"
begin

section \<open>object-mapper: \<open>mapAndValidate\<close>\<close>

text \<open>
  The development embeds \<^verbatim>\<open>src/map-and-validate.ts\<close>. The function reads one value
  per mapping key out of a nested source object (lodash's \<^verbatim>\<open>_.get\<close>), optionally
  transforms it, assembles the values into a fresh object and hands that object to a
  Zod schema (\<^verbatim>\<open>schema.safeParse\<close>).

  Scope of the model:
  \<^item> JavaScript numbers are integers here; no claim depends on floating point.
  \<^item> A value is plain data: its properties are writable data properties, and an
    absent property reads as \<open>Undefined\<close>.
  \<^item> The three calls that leave the function (\<^verbatim>\<open>_.get\<close>, a transform,
    \<^verbatim>\<open>schema.safeParse\<close>) return a value or throw; the function has no
    \<^verbatim>\<open>try\<close>, so what they throw ends the call.
\<close>

subsection \<open>Values\<close>

datatype jsval =
    Undefined
  | Null
  | JBool bool
  | JNum int
  | JStr string
  | JArr "jsval list"
  | JObj "(string \<times> jsval) list"

text \<open>A \<^verbatim>\<open>throw\<close> carries an arbitrary value.\<close>

datatype error = Thrown jsval

subsection \<open>The mapping declaration\<close>

text \<open>
  \<^verbatim>\<open>type PathMapping<T, R = T> = { path: string; default?: T; transform?: (value: T) => R }\<close>

  The field \<open>defaultVal\<close> holds what the destructuring
  \<^verbatim>\<open>const { path, default: defaultVal, transform } = entry\<close> binds: the declared
  default, or \<open>Undefined\<close> when the property is absent. A transform is a caller's
  function, which returns a value or throws and is otherwise pure, as the spec
  requires of it; \<open>None\<close> is an absent (falsy) property.
\<close>

record PathMapping =
  path :: string
  defaultVal :: jsval
  transform :: "(jsval \<Rightarrow> error + jsval) option"

text \<open>
  \<^verbatim>\<open>type Mappings = { [key: string]: PathMapping<any, any> }\<close>

  The mapping object is listed in the order of \<^verbatim>\<open>Object.keys(mapping)\<close>. The value
  under a key is \<open>Some entry\<close>, or \<open>None\<close> when \<^verbatim>\<open>mapping[key]\<close> is falsy (the case
  the guard \<^verbatim>\<open>if (entry)\<close> tests). The keys of a JavaScript object are unique, which
  the theorems assume as \<open>distinct (map fst mapping)\<close> where they need it. Any string
  is a key, \<^verbatim>\<open>__proto__\<close> too: \<^verbatim>\<open>JSON.parse\<close> and a computed key create it as an
  own property. \<^verbatim>\<open>Object.keys\<close> lists array-index keys first, in ascending order,
  and the other keys in the order of their creation; assignments made in that order
  leave the keys of the new object in the same order.
\<close>

type_synonym Mappings = "(string \<times> PathMapping option) list"

subsection \<open>The resolver\<close>

text \<open>
  Modelled from the spec: lodash's \<^verbatim>\<open>_.get(object, path, defaultValue)\<close> is a
  dependency, not part of the sources. The spec (sections 4.1 and 6) describes it as
  a resolver that walks the path and returns the default when the path does not
  resolve to a present value, where an absent key, an absent index and an explicit
  undefined all count as missing. The walk itself is the parameter \<open>baseGet\<close>: it
  yields \<open>Inr Undefined\<close> for a path that is missing, and \<open>Inl\<close> when reading the
  source throws (a getter of the source, say).
\<close>

definition get ::
  "(jsval \<Rightarrow> string \<Rightarrow> error + jsval) \<Rightarrow> jsval \<Rightarrow> string \<Rightarrow> jsval \<Rightarrow> error + jsval" where
  "get baseGet object p defaultValue =
     (case baseGet object p of
        Inl err \<Rightarrow> Inl err
      | Inr result \<Rightarrow> Inr (if result = Undefined then defaultValue else result))"

subsection \<open>The object under construction\<close>

text \<open>
  \<^verbatim>\<open>const result = {} as ExtractedValues<M>\<close>

  The object has own properties, in property order, and a prototype. The literal
  \<^verbatim>\<open>{}\<close> has no own property and the prototype \<^verbatim>\<open>Object.prototype\<close>.
\<close>

datatype prototype = ObjectPrototype | NullPrototype | PrototypeIs jsval

record ExtractedValues =
  proto :: prototype
  props :: "(string \<times> jsval) list"

definition emptyObject :: ExtractedValues where
  "emptyObject = \<lparr>proto = ObjectPrototype, props = []\<rparr>"

text \<open>
  The assignment \<^verbatim>\<open>result[key] = val\<close>. For a key that the object owns, the value
  is overwritten in place; for a new key the property is appended
  (\<open>AList.update\<close> does both). The one key that differs is \<^verbatim>\<open>__proto__\<close>:
  \<^verbatim>\<open>Object.prototype\<close> has an accessor of that name, and as long as the object
  inherits it and owns no property of that name, the assignment runs the setter.
  The setter replaces the prototype when the value is an object or \<^verbatim>\<open>null\<close> and
  does nothing for any other value; in neither case does it create a property.
\<close>

definition inheritsProtoSetter :: "ExtractedValues \<Rightarrow> bool" where
  "inheritsProtoSetter result =
     (map_of (props result) ''__proto__'' = None \<and>
      (case proto result of
         ObjectPrototype \<Rightarrow> True
       | NullPrototype \<Rightarrow> False
       | PrototypeIs p \<Rightarrow>
           (case p of JObj kvs \<Rightarrow> map_of kvs ''__proto__'' = None | _ \<Rightarrow> True)))"

definition setPrototype :: "ExtractedValues \<Rightarrow> jsval \<Rightarrow> ExtractedValues" where
  "setPrototype result val =
     (case val of
        JObj kvs \<Rightarrow> result\<lparr>proto := PrototypeIs val\<rparr>
      | JArr xs \<Rightarrow> result\<lparr>proto := PrototypeIs val\<rparr>
      | Null \<Rightarrow> result\<lparr>proto := NullPrototype\<rparr>
      | _ \<Rightarrow> result)"

definition assign :: "ExtractedValues \<Rightarrow> string \<Rightarrow> jsval \<Rightarrow> ExtractedValues" where
  "assign result key val =
     (if key = ''__proto__'' \<and> inheritsProtoSetter result then setPrototype result val
      else result\<lparr>props := AList.update key val (props result)\<rparr>)"

subsection \<open>The schema\<close>

text \<open>
  The outcome of \<^verbatim>\<open>schema.safeParse\<close>: \<^verbatim>\<open>{ success: true, data }\<close> or
  \<^verbatim>\<open>{ success: false, error: { issues } }\<close>. Issues are opaque (\<open>'i\<close>).
\<close>

datatype 'i SafeParseResult =
    ParseSuccess jsval
  | ParseFailure "'i list"

text \<open>
  A schema is opaque apart from its \<^verbatim>\<open>safeParse\<close> method, which the function
  applies to the object it has built. The method returns an outcome or throws (Zod
  throws from a synchronous parse of a schema with an asynchronous refinement).
\<close>

record 'i ZodType =
  safeParse :: "ExtractedValues \<Rightarrow> error + 'i SafeParseResult"

subsection \<open>The result\<close>

text \<open>
  \<^verbatim>\<open>{ data: z.infer<S>; isError: false; errors: undefined }
  | { data: undefined; isError: true; errors: $ZodIssue[] }\<close>

  \<open>errors = None\<close> is \<^verbatim>\<open>errors: undefined\<close>.
\<close>

record 'i Result =
  data :: jsval
  isError :: bool
  errors :: "'i list option"

subsection \<open>\<open>mapAndValidate\<close>\<close>

text \<open>
  The loop \<^verbatim>\<open>for (const key of Object.keys(mapping))\<close> with the object \<^verbatim>\<open>result\<close>
  under construction as an accumulator. What the resolver or a transform throws
  ends the loop. The path walk behind \<^verbatim>\<open>_.get\<close> is passed along as \<open>baseGet\<close>.
\<close>

fun extractValues ::
  "(jsval \<Rightarrow> string \<Rightarrow> error + jsval) \<Rightarrow> jsval \<Rightarrow> Mappings \<Rightarrow> ExtractedValues
     \<Rightarrow> error + ExtractedValues" where
  "extractValues baseGet obj [] result = Inr result"
| "extractValues baseGet obj ((key, entry) # rest) result =
     (case entry of
        None \<Rightarrow> extractValues baseGet obj rest result
      | Some e \<Rightarrow>
          (case get baseGet obj (path e) (defaultVal e) of
             Inl err \<Rightarrow> Inl err
           | Inr val \<Rightarrow>
               (case transform e of
                  None \<Rightarrow> extractValues baseGet obj rest (assign result key val)
                | Some t \<Rightarrow>
                    (case t val of
                       Inl err \<Rightarrow> Inl err
                     | Inr val' \<Rightarrow> extractValues baseGet obj rest (assign result key val')))))"

text \<open>
  \<open>mapAndValidate\<close> runs the loop on the empty object, validates the outcome and
  tags what the validator returns. What the loop or the validator throws passes
  through.
\<close>

definition mapAndValidate ::
  "(jsval \<Rightarrow> string \<Rightarrow> error + jsval) \<Rightarrow> jsval \<Rightarrow> Mappings \<Rightarrow> 'i ZodType
     \<Rightarrow> error + 'i Result" where
  "mapAndValidate baseGet obj mapping schema =
     (case extractValues baseGet obj mapping emptyObject of
        Inl err \<Rightarrow> Inl err
      | Inr result \<Rightarrow>
          (case safeParse schema result of
             Inl err \<Rightarrow> Inl err
           | Inr (ParseSuccess d) \<Rightarrow> Inr \<lparr>data = d, isError = False, errors = None\<rparr>
           | Inr (ParseFailure issues) \<Rightarrow>
               Inr \<lparr>data = Undefined, isError = True, errors = Some issues\<rparr>))"

text \<open>
  What the loop body computes for one entry: the resolved-or-defaulted value, passed
  through the transform when one is declared. It is used to state the lemmas about
  the loop; \<open>extractValues_Some\<close> shows that the loop does exactly this.
\<close>

definition fieldValue ::
  "(jsval \<Rightarrow> string \<Rightarrow> error + jsval) \<Rightarrow> jsval \<Rightarrow> PathMapping \<Rightarrow> error + jsval" where
  "fieldValue baseGet obj e =
     (case get baseGet obj (path e) (defaultVal e) of
        Inl err \<Rightarrow> Inl err
      | Inr val \<Rightarrow> (case transform e of None \<Rightarrow> Inr val | Some t \<Rightarrow> t val))"

text \<open>The prototype that the setter of \<^verbatim>\<open>__proto__\<close> leaves on the empty object.\<close>

definition protoAfter :: "jsval \<Rightarrow> prototype" where
  "protoAfter val = proto (setPrototype emptyObject val)"

subsection \<open>A concrete resolver\<close>

text \<open>
  Modelled from the spec: the path walk of the resolver is not part of the sources.
  Sections 6 and 9 of the spec ask for nested object traversal and positional
  indexing over \<^verbatim>\<open>.\<close>-delimited segments (\<^verbatim>\<open>a.b.0.c\<close>), with the absent marker
  when a segment is missing. \<open>resolvePath\<close> is such a walk over own data properties,
  which never throws; it instantiates \<open>baseGet\<close> in the concrete examples.
\<close>

fun splitDots :: "string \<Rightarrow> string \<Rightarrow> string list" where
  "splitDots seg [] = [seg]"
| "splitDots seg (c # cs) =
     (if c = CHR ''.'' then seg # splitDots [] cs else splitDots (seg @ [c]) cs)"

definition digitOf :: "char \<Rightarrow> nat option" where
  "digitOf c =
     (let n = (of_char c :: nat) in if 48 \<le> n \<and> n \<le> 57 then Some (n - 48) else None)"

fun digitsValue :: "nat \<Rightarrow> string \<Rightarrow> nat option" where
  "digitsValue n [] = Some n"
| "digitsValue n (c # cs) =
     (case digitOf c of None \<Rightarrow> None | Some d \<Rightarrow> digitsValue (10 * n + d) cs)"

text \<open>An array index is a decimal numeral without a leading zero.\<close>

definition arrayIndex :: "string \<Rightarrow> nat option" where
  "arrayIndex s =
     (if s = [] \<or> (hd s = CHR ''0'' \<and> s \<noteq> ''0'') then None else digitsValue 0 s)"

fun ownProperty :: "jsval \<Rightarrow> string \<Rightarrow> jsval" where
  "ownProperty (JObj kvs) k = (case map_of kvs k of Some v \<Rightarrow> v | None \<Rightarrow> Undefined)"
| "ownProperty (JArr xs) k =
     (case arrayIndex k of
        Some i \<Rightarrow> if i < length xs then xs ! i else Undefined
      | None \<Rightarrow> Undefined)"
| "ownProperty v k = Undefined"

fun walk :: "jsval \<Rightarrow> string list \<Rightarrow> jsval" where
  "walk v [] = v"
| "walk v (s # ss) =
     (if v = Null \<or> v = Undefined then Undefined else walk (ownProperty v s) ss)"

definition resolvePath :: "jsval \<Rightarrow> string \<Rightarrow> error + jsval" where
  "resolvePath obj p = Inr (walk obj (splitDots [] p))"

subsection \<open>Concrete schemas, transforms and inputs\<close>

text \<open>An issue as a validator reports it: the path of the field and a message.\<close>

datatype ZodIssue = ZodIssue "string list" string

text \<open>Reading a property of the object: its own property, or else the prototype's.\<close>

definition readProperty :: "ExtractedValues \<Rightarrow> string \<Rightarrow> jsval" where
  "readProperty c k =
     (case map_of (props c) k of
        Some v \<Rightarrow> v
      | None \<Rightarrow> (case proto c of PrototypeIs p \<Rightarrow> ownProperty p k | _ \<Rightarrow> Undefined))"

text \<open>
  A schema in the manner of \<^verbatim>\<open>z.object({ name: z.string(), age: z.number() })\<close>: it
  reads the two fields it declares, reports them in the order of its own shape and
  returns an object of exactly these fields.
\<close>

definition nameAgeSchema :: "ZodIssue ZodType" where
  "nameAgeSchema = \<lparr>safeParse = (\<lambda>c.
     let name = readProperty c ''name'';
         age = readProperty c ''age'';
         issues =
           (case name of JStr s \<Rightarrow> [] | _ \<Rightarrow> [ZodIssue [''name''] ''expected string''])
           @ (case age of JNum n \<Rightarrow> [] | _ \<Rightarrow> [ZodIssue [''age''] ''expected number''])
     in if issues = [] then Inr (ParseSuccess (JObj [(''name'', name), (''age'', age)]))
        else Inr (ParseFailure issues))\<rparr>"

text \<open>
  A schema in the manner of \<^verbatim>\<open>z.record(z.string(), z.number())\<close>: it visits the
  own properties of its input in property order and reports every value that is not
  a number.
\<close>

fun numberIssues :: "(string \<times> jsval) list \<Rightarrow> ZodIssue list" where
  "numberIssues [] = []"
| "numberIssues ((k, v) # kvs) =
     (case v of
        JNum n \<Rightarrow> numberIssues kvs
      | _ \<Rightarrow> ZodIssue [k] ''expected number'' # numberIssues kvs)"

definition recordOfNumbers :: "ZodIssue ZodType" where
  "recordOfNumbers = \<lparr>safeParse = (\<lambda>c.
     if numberIssues (props c) = [] then Inr (ParseSuccess (JObj (props c)))
     else Inr (ParseFailure (numberIssues (props c))))\<rparr>"

text \<open>
  A transform in the manner of \<^verbatim>\<open>(v) => v.length\<close>: the length of a string or an
  array, a \<^verbatim>\<open>TypeError\<close> on \<^verbatim>\<open>undefined\<close> and \<^verbatim>\<open>null\<close>.
\<close>

definition lengthOf :: "jsval \<Rightarrow> error + jsval" where
  "lengthOf v =
     (case v of
        JStr s \<Rightarrow> Inr (JNum (int (length s)))
      | JArr xs \<Rightarrow> Inr (JNum (int (length xs)))
      | Undefined \<Rightarrow> Inl (Thrown (JStr ''TypeError''))
      | Null \<Rightarrow> Inl (Thrown (JStr ''TypeError''))
      | _ \<Rightarrow> Inr Undefined)"

definition aliceSource :: jsval where
  "aliceSource = JObj [(''user'', JObj [(''name'', JStr ''Alice''), (''age'', JNum 25)])]"

definition nameEntry :: PathMapping where
  "nameEntry = \<lparr>path = ''user.name'', defaultVal = JStr ''Unknown'', transform = None\<rparr>"

definition ageEntry :: PathMapping where
  "ageEntry = \<lparr>path = ''user.age'', defaultVal = JNum 0, transform = None\<rparr>"

definition emailEntry :: PathMapping where
  "emailEntry =
     \<lparr>path = ''user.contact.email'', defaultVal = JStr ''email@gmail.com'',
      transform = Some lengthOf\<rparr>"

definition nickEntry :: PathMapping where
  "nickEntry = \<lparr>path = ''user.nick'', defaultVal = Undefined, transform = Some lengthOf\<rparr>"

definition aliceMapping :: Mappings where
  "aliceMapping = [(''name'', Some nameEntry), (''emailLength'', Some emailEntry), (''age'', Some ageEntry)]"

text \<open>A mapping with a key whose entry is missing, and one whose transform throws.\<close>

definition typoMapping :: Mappings where
  "typoMapping = [(''name'', Some nameEntry), (''nick'', None), (''age'', Some ageEntry)]"

definition faultyMapping :: Mappings where
  "faultyMapping = [(''name'', Some nameEntry), (''nickLength'', Some nickEntry), (''age'', Some ageEntry)]"

text \<open>
  The inputs of the repository's validation-failure test: \<^verbatim>\<open>age\<close> is a string where
  the schema wants a number.
\<close>

definition nameAgeMapping :: Mappings where
  "nameAgeMapping = [(''name'', Some nameEntry), (''age'', Some ageEntry)]"

definition badAgeSource :: jsval where
  "badAgeSource = JObj [(''user'', JObj [(''name'', JStr ''Alice''), (''age'', JStr ''not-a-number'')])]"

text \<open>Two fields that are both not numbers.\<close>

definition flatSource :: jsval where
  "flatSource = JObj [(''x'', JStr ''p''), (''y'', JStr ''q'')]"

definition abMapping :: Mappings where
  "abMapping =
     [(''a'', Some \<lparr>path = ''x'', defaultVal = Undefined, transform = None\<rparr>),
      (''b'', Some \<lparr>path = ''y'', defaultVal = Undefined, transform = None\<rparr>)]"

text \<open>A source whose values are defined but falsy, read with a default declared.\<close>

definition falsySource :: jsval where
  "falsySource = JObj [(''n'', Null), (''b'', JBool False), (''z'', JNum 0), (''s'', JStr [])]"

definition fallbackEntry :: "string \<Rightarrow> PathMapping" where
  "fallbackEntry p = \<lparr>path = p, defaultVal = JStr ''fallback'', transform = None\<rparr>"

definition falsyMapping :: Mappings where
  "falsyMapping =
     [(''n'', Some (fallbackEntry ''n'')), (''b'', Some (fallbackEntry ''b'')),
      (''z'', Some (fallbackEntry ''z'')), (''s'', Some (fallbackEntry ''s''))]"

text \<open>
  Two mappings with the own key \<^verbatim>\<open>__proto__\<close>, as
  \<^verbatim>\<open>JSON.parse('{"__proto__": {"path": "user.name", "default": "Unknown"}, ...}')\<close>
  builds them.
\<close>

definition protoNameMapping :: Mappings where
  "protoNameMapping = [(''__proto__'', Some nameEntry), (''age'', Some ageEntry)]"

definition protoZeroMapping :: Mappings where
  "protoZeroMapping = [(''__proto__'', Some (fallbackEntry ''z''))]"

section \<open>The loop\<close>

text \<open>
  The two cases of the loop body. With these as rewrite rules the defining equation
  is no longer unfolded.
\<close>

lemma extractValues_None [simp]:
  "extractValues baseGet obj ((key, None) # rest) result = extractValues baseGet obj rest result"
  by simp

lemma extractValues_Some:
  "extractValues baseGet obj ((key, Some e) # rest) result =
     (case fieldValue baseGet obj e of
        Inl err \<Rightarrow> Inl err
      | Inr v \<Rightarrow> extractValues baseGet obj rest (assign result key v))"
  by (simp add: fieldValue_def split: option.split sum.split)

declare extractValues.simps(2) [simp del]

subsection \<open>The assignment\<close>

lemma assign_other_key:
  "key \<noteq> k \<Longrightarrow> map_of (props (assign result key val)) k = map_of (props result) k"
  by (simp add: assign_def setPrototype_def update_conv' split: jsval.split)

lemma assign_ordinary_key:
  "key \<noteq> ''__proto__'' \<Longrightarrow> map_of (props (assign result key val)) key = Some val"
  by (simp add: assign_def update_conv')

lemma assign_ordinary_proto:
  "key \<noteq> ''__proto__'' \<Longrightarrow> proto (assign result key val) = proto result"
  by (simp add: assign_def)

lemma assign_proto_key:
  assumes "proto result = ObjectPrototype" and "map_of (props result) ''__proto__'' = None"
  shows "proto (assign result ''__proto__'' val) = protoAfter val"
    and "props (assign result ''__proto__'' val) = props result"
  using assms
  by (simp_all add: assign_def inheritsProtoSetter_def setPrototype_def protoAfter_def
      emptyObject_def split: jsval.split)



subsection \<open>What the loop leaves in the object\<close>

lemma extractValues_other_key:
  "extractValues baseGet obj m acc = Inr result \<Longrightarrow> \<forall>e. (k, Some e) \<notin> set m
   \<Longrightarrow> map_of (props result) k = map_of (props acc) k"
proof (induction m arbitrary: acc)
  case Nil
  then show ?case by simp
next
  case (Cons p m)
  obtain k' entry where p: "p = (k', entry)" by (cases p)
  show ?case
  proof (cases entry)
    case None
    with Cons p show ?thesis by simp
  next
    case (Some e)
    with Cons.prems p have ne: "k' \<noteq> k" by auto
    from Cons.prems(1) p Some obtain v where
      r: "extractValues baseGet obj m (assign acc k' v) = Inr result"
      by (auto simp: extractValues_Some split: sum.splits)
    from Cons.IH [OF r] Cons.prems(2)
    have "map_of (props result) k = map_of (props (assign acc k' v)) k" by simp
    with ne show ?thesis by (simp add: assign_other_key)
  qed
qed

lemma extractValues_proto_unchanged:
  "extractValues baseGet obj m acc = Inr result \<Longrightarrow> \<forall>e. (''__proto__'', Some e) \<notin> set m
   \<Longrightarrow> proto result = proto acc"
proof (induction m arbitrary: acc)
  case Nil
  then show ?case by simp
next
  case (Cons p m)
  obtain k' entry where p: "p = (k', entry)" by (cases p)
  show ?case
  proof (cases entry)
    case None
    with Cons p show ?thesis by simp
  next
    case (Some e)
    with Cons.prems p have ne: "k' \<noteq> ''__proto__''" by auto
    from Cons.prems(1) p Some obtain v where
      r: "extractValues baseGet obj m (assign acc k' v) = Inr result"
      by (auto simp: extractValues_Some split: sum.splits)
    from Cons.IH [OF r] Cons.prems(2) have "proto result = proto (assign acc k' v)" by simp
    with ne show ?thesis by (simp add: assign_ordinary_proto)
  qed
qed

lemma extractValues_all_return:
  "extractValues baseGet obj m acc = Inr result \<Longrightarrow> (k, Some e) \<in> set m
   \<Longrightarrow> \<exists>v. fieldValue baseGet obj e = Inr v"
proof (induction m arbitrary: acc)
  case Nil
  then show ?case by simp
next
  case (Cons p m)
  obtain k' entry where p: "p = (k', entry)" by (cases p)
  show ?case
  proof (cases entry)
    case None
    with Cons p show ?thesis by auto
  next
    case (Some e')
    from Cons.prems(1) p Some obtain v where
      v: "fieldValue baseGet obj e' = Inr v"
      and r: "extractValues baseGet obj m (assign acc k' v) = Inr result"
      by (auto simp: extractValues_Some split: sum.splits)
    show ?thesis
    proof (cases "(k, Some e) \<in> set m")
      case True
      from Cons.IH [OF r True] show ?thesis .
    next
      case False
      with Cons.prems(2) p Some have "e' = e" by auto
      with v show ?thesis by blast
    qed
  qed
qed

lemma extractValues_stored:
  "extractValues baseGet obj m acc = Inr result \<Longrightarrow> distinct (map fst m)
   \<Longrightarrow> (k, Some e) \<in> set m \<Longrightarrow> k \<noteq> ''__proto__''
   \<Longrightarrow> \<exists>v. fieldValue baseGet obj e = Inr v \<and> map_of (props result) k = Some v"
proof (induction m arbitrary: acc)
  case Nil
  then show ?case by simp
next
  case (Cons p m)
  obtain k' entry where p: "p = (k', entry)" by (cases p)
  from Cons.prems(2) p have dm: "distinct (map fst m)" and k'm: "k' \<notin> fst ` set m" by auto
  show ?case
  proof (cases "(k, Some e) \<in> set m")
    case True
    show ?thesis
    proof (cases entry)
      case None
      with Cons.prems(1) p have "extractValues baseGet obj m acc = Inr result" by simp
      from Cons.IH [OF this dm True Cons.prems(4)] show ?thesis .
    next
      case (Some e')
      from Cons.prems(1) p Some obtain v where
        r: "extractValues baseGet obj m (assign acc k' v) = Inr result"
        by (auto simp: extractValues_Some split: sum.splits)
      from Cons.IH [OF r dm True Cons.prems(4)] show ?thesis .
    qed
  next
    case False
    with Cons.prems(3) p have eq: "k' = k" "entry = Some e" by auto
    from Cons.prems(1) p eq obtain v where
      v: "fieldValue baseGet obj e = Inr v"
      and r: "extractValues baseGet obj m (assign acc k v) = Inr result"
      by (auto simp: extractValues_Some split: sum.splits)
    from k'm eq have "\<forall>e. (k, Some e) \<notin> set m" by (auto simp: image_iff)
    from extractValues_other_key [OF r this] Cons.prems(4)
    have "map_of (props result) k = Some v"
      by (simp add: assign_ordinary_key)
    with v show ?thesis by blast
  qed
qed

lemma extractValues_proto_key:
  "extractValues baseGet obj m acc = Inr result \<Longrightarrow> distinct (map fst m)
   \<Longrightarrow> (''__proto__'', Some e) \<in> set m
   \<Longrightarrow> proto acc = ObjectPrototype \<Longrightarrow> map_of (props acc) ''__proto__'' = None
   \<Longrightarrow> \<exists>v. fieldValue baseGet obj e = Inr v \<and> proto result = protoAfter v
         \<and> map_of (props result) ''__proto__'' = None"
proof (induction m arbitrary: acc)
  case Nil
  then show ?case by simp
next
  case (Cons p m)
  obtain k' entry where p: "p = (k', entry)" by (cases p)
  from Cons.prems(2) p have dm: "distinct (map fst m)" and k'm: "k' \<notin> fst ` set m" by auto
  show ?case
  proof (cases "(''__proto__'', Some e) \<in> set m")
    case True
    with k'm have ne: "k' \<noteq> ''__proto__''" by (auto simp: image_iff)
    show ?thesis
    proof (cases entry)
      case None
      with Cons.prems(1) p have "extractValues baseGet obj m acc = Inr result" by simp
      from Cons.IH [OF this dm True Cons.prems(4,5)] show ?thesis .
    next
      case (Some e')
      from Cons.prems(1) p Some obtain v where
        r: "extractValues baseGet obj m (assign acc k' v) = Inr result"
        by (auto simp: extractValues_Some split: sum.splits)
      from ne Cons.prems(4) have a: "proto (assign acc k' v) = ObjectPrototype"
        by (simp add: assign_ordinary_proto)
      from ne Cons.prems(5) have b: "map_of (props (assign acc k' v)) ''__proto__'' = None"
        by (simp add: assign_other_key)
      from Cons.IH [OF r dm True a b] show ?thesis .
    qed
  next
    case False
    with Cons.prems(3) p have eq: "k' = ''__proto__''" "entry = Some e" by auto
    from Cons.prems(1) p eq obtain v where
      v: "fieldValue baseGet obj e = Inr v"
      and r: "extractValues baseGet obj m (assign acc ''__proto__'' v) = Inr result"
      by (auto simp: extractValues_Some split: sum.splits)
    from k'm eq have none: "\<forall>e. (''__proto__'', Some e) \<notin> set m" by (auto simp: image_iff)
    from extractValues_proto_unchanged [OF r none] assign_proto_key(1) [OF Cons.prems(4,5)]
    have "proto result = protoAfter v" by simp
    moreover from extractValues_other_key [OF r none] assign_proto_key(2) [OF Cons.prems(4,5)]
      Cons.prems(5)
    have "map_of (props result) ''__proto__'' = None" by simp
    ultimately show ?thesis using v by blast
  qed
qed



lemma extractValues_total:
  "\<forall>k e. (k, Some e) \<in> set m \<longrightarrow> (\<exists>v. fieldValue baseGet obj e = Inr v)
   \<Longrightarrow> \<exists>result. extractValues baseGet obj m acc = Inr result"
proof (induction m arbitrary: acc)
  case Nil
  then show ?case by simp
next
  case (Cons p m)
  obtain k' entry where p: "p = (k', entry)" by (cases p)
  from Cons.prems have ih: "\<exists>result. extractValues baseGet obj m acc' = Inr result" for acc'
    by (intro Cons.IH) auto
  show ?case
  proof (cases entry)
    case None
    with p ih show ?thesis by simp
  next
    case (Some e)
    with Cons.prems p obtain v where "fieldValue baseGet obj e = Inr v" by auto
    with p Some ih show ?thesis by (simp add: extractValues_Some)
  qed
qed

lemma extractValues_first_fault:
  "\<forall>k e. (k, Some e) \<in> set pre \<longrightarrow> (\<exists>v. fieldValue baseGet obj e = Inr v)
   \<Longrightarrow> fieldValue baseGet obj e = Inl f
   \<Longrightarrow> extractValues baseGet obj (pre @ (key, Some e) # post) acc = Inl f"
proof (induction pre arbitrary: acc)
  case Nil
  then show ?case by (simp add: extractValues_Some)
next
  case (Cons p pre)
  obtain k' entry where p: "p = (k', entry)" by (cases p)
  from Cons.prems
  have ih: "extractValues baseGet obj (pre @ (key, Some e) # post) acc' = Inl f" for acc'
    by (intro Cons.IH) auto
  show ?case
  proof (cases entry)
    case None
    with p ih show ?thesis by simp
  next
    case (Some e')
    with Cons.prems(1) p obtain v where "fieldValue baseGet obj e' = Inr v" by auto
    with p Some ih show ?thesis by (simp add: extractValues_Some)
  qed
qed

subsection \<open>Removing a key, reordering the keys\<close>

lemma extractValues_filter_key:
  "\<forall>e. (key, Some e) \<notin> set m
   \<Longrightarrow> extractValues baseGet obj (filter (\<lambda>(k, entry). k \<noteq> key) m) acc =
       extractValues baseGet obj m acc"
proof (induction m arbitrary: acc)
  case Nil
  then show ?case by simp
next
  case (Cons p m)
  obtain k' entry where p: "p = (k', entry)" by (cases p)
  from Cons.prems
  have ih: "extractValues baseGet obj (filter (\<lambda>(k, entry). k \<noteq> key) m) acc' =
       extractValues baseGet obj m acc'" for acc'
    by (intro Cons.IH) auto
  show ?case
  proof (cases entry)
    case None
    with p ih show ?thesis by simp
  next
    case (Some e)
    with Cons.prems p have "k' \<noteq> key" by auto
    with p Some ih show ?thesis by (simp add: extractValues_Some split: sum.split)
  qed
qed

lemma falsy_key_has_no_entry:
  "distinct (map fst m) \<Longrightarrow> (key, None) \<in> set m \<Longrightarrow> (key, Some e) \<notin> set m"
  by (auto dest: eq_key_imp_eq_value)

lemma extractValues_same_content:
  assumes m: "extractValues baseGet obj m emptyObject = Inr c"
    and m': "extractValues baseGet obj m' emptyObject = Inr c'"
    and d: "distinct (map fst m)" and d': "distinct (map fst m')"
    and s: "set m' = set m"
  shows "proto c' = proto c \<and> map_of (props c') = map_of (props c)"
proof
  have start: "proto emptyObject = ObjectPrototype" "map_of (props emptyObject) k = None" for k
    by (simp_all add: emptyObject_def)
  show "proto c' = proto c"
  proof (cases "\<exists>e. (''__proto__'', Some e) \<in> set m")
    case True
    then obtain e where e: "(''__proto__'', Some e) \<in> set m" by blast
    with s have e': "(''__proto__'', Some e) \<in> set m'" by simp
    from extractValues_proto_key [OF m d e start] extractValues_proto_key [OF m' d' e' start]
    show ?thesis by auto
  next
    case False
    with s have "\<forall>e. (''__proto__'', Some e) \<notin> set m"
      and "\<forall>e. (''__proto__'', Some e) \<notin> set m'" by auto
    with extractValues_proto_unchanged [OF m] extractValues_proto_unchanged [OF m']
    show ?thesis by simp
  qed
  show "map_of (props c') = map_of (props c)"
  proof
    fix k
    show "map_of (props c') k = map_of (props c) k"
    proof (cases "\<exists>e. (k, Some e) \<in> set m")
      case True
      then obtain e where e: "(k, Some e) \<in> set m" by blast
      with s have e': "(k, Some e) \<in> set m'" by simp
      show ?thesis
      proof (cases "k = ''__proto__''")
        case True
        from extractValues_proto_key [OF m d _ start] e True
        have "map_of (props c) ''__proto__'' = None" by blast
        moreover from extractValues_proto_key [OF m' d' _ start] e' True
        have "map_of (props c') ''__proto__'' = None" by blast
        ultimately show ?thesis using True by simp
      next
        case False
        from extractValues_stored [OF m d e False] extractValues_stored [OF m' d' e' False]
        show ?thesis by auto
      qed
    next
      case False
      with s have "\<forall>e. (k, Some e) \<notin> set m" and "\<forall>e. (k, Some e) \<notin> set m'" by auto
      with extractValues_other_key [OF m] extractValues_other_key [OF m']
      show ?thesis by simp
    qed
  qed
qed

lemma mapAndValidate_reordered:
  assumes r: "mapAndValidate baseGet obj m schema = Inr r"
    and d: "distinct (map fst m)" and d': "distinct (map fst m')"
    and s: "set m' = set m"
    and v: "\<forall>c c'. proto c = proto c' \<and> map_of (props c) = map_of (props c')
              \<longrightarrow> safeParse schema c = safeParse schema c'"
  shows "mapAndValidate baseGet obj m' schema = Inr r"
proof -
  from r obtain c where c: "extractValues baseGet obj m emptyObject = Inr c"
    by (auto simp: mapAndValidate_def split: sum.splits)
  have "\<forall>k e. (k, Some e) \<in> set m' \<longrightarrow> (\<exists>v. fieldValue baseGet obj e = Inr v)"
    using extractValues_all_return [OF c] s by blast
  from extractValues_total [OF this] obtain c' where
    c': "extractValues baseGet obj m' emptyObject = Inr c'" by blast
  from extractValues_same_content [OF c c' d d' s] v
  have "safeParse schema c' = safeParse schema c" by metis
  with r c c' show ?thesis by (simp add: mapAndValidate_def)
qed

lemma nameAgeSchema_content_only:
  "\<forall>c c'. proto c = proto c' \<and> map_of (props c) = map_of (props c')
     \<longrightarrow> safeParse nameAgeSchema c = safeParse nameAgeSchema c'"
proof (intro allI impI)
  fix c c' :: ExtractedValues
  assume "proto c = proto c' \<and> map_of (props c) = map_of (props c')"
  then have "readProperty c k = readProperty c' k" for k
    by (simp add: readProperty_def split: option.split)
  then show "safeParse nameAgeSchema c = safeParse nameAgeSchema c'"
    by (simp add: nameAgeSchema_def)
qed

subsection \<open>The concrete examples and the ordinary keys\<close>

text \<open>The unfolding rules that evaluate the concrete examples.\<close>

lemmas example_defs =
  aliceSource_def nameEntry_def ageEntry_def emailEntry_def nickEntry_def aliceMapping_def
  typoMapping_def faultyMapping_def nameAgeMapping_def badAgeSource_def
  flatSource_def abMapping_def falsySource_def fallbackEntry_def falsyMapping_def
  protoNameMapping_def protoZeroMapping_def
  resolvePath_def get_def lengthOf_def fieldValue_def extractValues_Some
  assign_def inheritsProtoSetter_def setPrototype_def emptyObject_def readProperty_def
  mapAndValidate_def nameAgeSchema_def recordOfNumbers_def

text \<open>
  For every key other than \<^verbatim>\<open>__proto__\<close> the loop stores the value of the entry:
  the resolved value when the path resolves to something other than \<open>Undefined\<close>,
  the default otherwise, passed through the transform when one is declared.
\<close>

lemma stored_value_of_ordinary_key:
  assumes "distinct (map fst mapping)"
    and "extractValues baseGet obj mapping emptyObject = Inr result"
    and "(key, Some e) \<in> set mapping"
    and "key \<noteq> ''__proto__''"
  shows "\<exists>r val. baseGet obj (path e) = Inr r
           \<and> val = (if r = Undefined then defaultVal e else r)
           \<and> (case transform e of
                None \<Rightarrow> map_of (props result) key = Some val
              | Some t \<Rightarrow> \<exists>v. t val = Inr v \<and> map_of (props result) key = Some v)"
proof -
  from extractValues_stored [OF assms(2) assms(1) assms(3) assms(4)] obtain v where
    v: "fieldValue baseGet obj e = Inr v" and s: "map_of (props result) key = Some v"
    by blast
  show ?thesis
  proof (cases "baseGet obj (path e)")
    case (Inl err)
    with v show ?thesis by (simp add: fieldValue_def get_def)
  next
    case (Inr r)
    define val where "val = (if r = Undefined then defaultVal e else r)"
    from Inr have g: "get baseGet obj (path e) (defaultVal e) = Inr val"
      by (simp add: get_def val_def)
    have "case transform e of
            None \<Rightarrow> map_of (props result) key = Some val
          | Some t \<Rightarrow> \<exists>v. t val = Inr v \<and> map_of (props result) key = Some v"
      using v s g by (simp add: fieldValue_def split: option.splits)
    with Inr val_def show ?thesis by blast
  qed
qed

section \<open>Properties\<close>

text \<open>
  C1, at the failing input. The mapping has the own key \<^verbatim>\<open>__proto__\<close> with the entry
  \<^verbatim>\<open>{ path: 'user.name', default: 'Unknown' }\<close>. The value of the entry is
  \<^verbatim>\<open>'Alice'\<close>; the assignment runs the prototype setter, which ignores a string,
  and the finished object has no value under the key.
\<close>

theorem proto_key_value_not_stored:
  "(''__proto__'', Some nameEntry) \<in> set protoNameMapping
   \<and> fieldValue resolvePath aliceSource nameEntry = Inr (JStr ''Alice'')
   \<and> extractValues resolvePath aliceSource protoNameMapping emptyObject =
       Inr \<lparr>proto = ObjectPrototype, props = [(''age'', JNum 25)]\<rparr>
   \<and> map_of [(''age'', JNum 25)] ''__proto__'' = None"
  by (simp add: example_defs)




text \<open>
  C3. A key whose entry is missing or falsy is skipped silently: the outcome is the
  outcome of the mapping without that key, and the candidate object has no field
  for it.
\<close>

theorem falsy_entry_skipped:
  assumes "distinct (map fst mapping)" and "(key, None) \<in> set mapping"
  shows "mapAndValidate baseGet obj mapping schema =
           mapAndValidate baseGet obj (filter (\<lambda>(k, entry). k \<noteq> key) mapping) schema
       \<and> (case extractValues baseGet obj mapping emptyObject of
            Inl err \<Rightarrow> True
          | Inr result \<Rightarrow> key \<notin> fst ` set (props result))"
proof -
  from assms have none: "\<forall>e. (key, Some e) \<notin> set mapping"
    by (blast dest: falsy_key_has_no_entry)
  then have "extractValues baseGet obj (filter (\<lambda>(k, entry). k \<noteq> key) mapping) emptyObject =
      extractValues baseGet obj mapping emptyObject"
    by (rule extractValues_filter_key)
  then have same: "mapAndValidate baseGet obj mapping schema =
      mapAndValidate baseGet obj (filter (\<lambda>(k, entry). k \<noteq> key) mapping) schema"
    by (simp add: mapAndValidate_def)
  have "key \<notin> fst ` set (props result)"
    if "extractValues baseGet obj mapping emptyObject = Inr result" for result
  proof -
    from extractValues_other_key [OF that none] have "map_of (props result) key = None"
      by (simp add: emptyObject_def)
    then show ?thesis by (simp add: map_of_eq_None_iff)
  qed
  with same show ?thesis by (simp split: sum.split)
qed

text \<open>C3, at a concrete input: the key \<^verbatim>\<open>nick\<close> has no entry.\<close>

theorem falsy_entry_skipped_witness:
  "distinct (map fst typoMapping) \<and> (''nick'', None) \<in> set typoMapping
   \<and> mapAndValidate resolvePath aliceSource typoMapping nameAgeSchema =
       mapAndValidate resolvePath aliceSource nameAgeMapping nameAgeSchema
   \<and> extractValues resolvePath aliceSource typoMapping emptyObject =
       Inr \<lparr>proto = ObjectPrototype, props = [(''name'', JStr ''Alice''), (''age'', JNum 25)]\<rparr>
   \<and> ''nick'' \<notin> fst ` set [(''name'', JStr ''Alice''), (''age'', JNum 25)]"
  using falsy_entry_skipped [of typoMapping "''nick''" resolvePath aliceSource nameAgeSchema]
  by (simp add: example_defs)

text \<open>
  C4. A result is one of two variants. Success: \<open>isError\<close> is false, \<open>errors\<close> is
  undefined and \<open>data\<close> is the value the validator accepted. Failure: \<open>isError\<close> is
  true, \<open>data\<close> is undefined and \<open>errors\<close> is the list of issues of the validator.
\<close>

theorem result_is_one_variant:
  assumes "mapAndValidate baseGet obj mapping schema = Inr r"
  shows "(isError r = False \<and> errors r = None
            \<and> (\<exists>candidate. extractValues baseGet obj mapping emptyObject = Inr candidate
                  \<and> safeParse schema candidate = Inr (ParseSuccess (data r))))
       \<or> (isError r = True \<and> data r = Undefined
            \<and> (\<exists>candidate issues. extractValues baseGet obj mapping emptyObject = Inr candidate
                  \<and> safeParse schema candidate = Inr (ParseFailure issues)
                  \<and> errors r = Some issues))"
  using assms
  by (auto simp: mapAndValidate_def split: sum.splits SafeParseResult.splits)

text \<open>C4, at a concrete input that validates.\<close>

theorem result_is_one_variant_witness:
  "mapAndValidate resolvePath aliceSource nameAgeMapping nameAgeSchema =
     Inr \<lparr>data = JObj [(''name'', JStr ''Alice''), (''age'', JNum 25)],
          isError = False, errors = None\<rparr>
   \<and> extractValues resolvePath aliceSource nameAgeMapping emptyObject =
       Inr \<lparr>proto = ObjectPrototype, props = [(''name'', JStr ''Alice''), (''age'', JNum 25)]\<rparr>
   \<and> safeParse nameAgeSchema
        \<lparr>proto = ObjectPrototype, props = [(''name'', JStr ''Alice''), (''age'', JNum 25)]\<rparr> =
       Inr (ParseSuccess (JObj [(''name'', JStr ''Alice''), (''age'', JNum 25)]))"
  using result_is_one_variant [of resolvePath aliceSource nameAgeMapping nameAgeSchema
      "\<lparr>data = JObj [(''name'', JStr ''Alice''), (''age'', JNum 25)],
        isError = False, errors = None\<rparr>"]
  by (simp add: example_defs)

text \<open>
  C5. When the validator rejects the candidate object, \<open>errors\<close> is the list of
  issues the validator returned: the same elements in the same order.
\<close>

theorem issues_passed_through:
  assumes "extractValues baseGet obj mapping emptyObject = Inr candidate"
    and "safeParse schema candidate = Inr (ParseFailure issues)"
  shows "mapAndValidate baseGet obj mapping schema =
           Inr \<lparr>data = Undefined, isError = True, errors = Some issues\<rparr>"
  using assms by (simp add: mapAndValidate_def)

text \<open>C5, at the inputs of the repository's validation-failure test.\<close>

theorem issues_passed_through_witness:
  "extractValues resolvePath badAgeSource nameAgeMapping emptyObject =
     Inr \<lparr>proto = ObjectPrototype,
          props = [(''name'', JStr ''Alice''), (''age'', JStr ''not-a-number'')]\<rparr>
   \<and> safeParse nameAgeSchema
        \<lparr>proto = ObjectPrototype,
         props = [(''name'', JStr ''Alice''), (''age'', JStr ''not-a-number'')]\<rparr> =
       Inr (ParseFailure [ZodIssue [''age''] ''expected number''])
   \<and> mapAndValidate resolvePath badAgeSource nameAgeMapping nameAgeSchema =
       Inr \<lparr>data = Undefined, isError = True,
            errors = Some [ZodIssue [''age''] ''expected number'']\<rparr>"
  using issues_passed_through [of resolvePath badAgeSource nameAgeMapping
      "\<lparr>proto = ObjectPrototype,
        props = [(''name'', JStr ''Alice''), (''age'', JStr ''not-a-number'')]\<rparr>"
      nameAgeSchema "[ZodIssue [''age''] ''expected number'']"]
  by (simp add: example_defs)

text \<open>
  C6 as stated fails. The candidate object is built in the iteration order of the
  mapping keys, and a validator can observe the property order of its input. With a
  schema that reports the fields in the order in which it meets them, the two
  iteration orders of the same two entries give the issues in two different orders.
\<close>

theorem property_order_reaches_validator_counterexample:
  "distinct (map fst abMapping) \<and> mset (rev abMapping) = mset abMapping
   \<and> mapAndValidate resolvePath flatSource abMapping recordOfNumbers =
       Inr \<lparr>data = Undefined, isError = True,
            errors = Some [ZodIssue [''a''] ''expected number'', ZodIssue [''b''] ''expected number'']\<rparr>
   \<and> mapAndValidate resolvePath flatSource (rev abMapping) recordOfNumbers =
       Inr \<lparr>data = Undefined, isError = True,
            errors = Some [ZodIssue [''b''] ''expected number'', ZodIssue [''a''] ''expected number'']\<rparr>
   \<and> mapAndValidate resolvePath flatSource (rev abMapping) recordOfNumbers \<noteq>
       mapAndValidate resolvePath flatSource abMapping recordOfNumbers"
  by (simp add: example_defs)

text \<open>
  C6, amended. For a validator whose outcome depends only on the prototype of the
  candidate object and on which value it holds under which key, and not on the
  order of its properties, two iteration orders over the same key/entry pairs give
  the same result: one returns the result \<open>r\<close> exactly when the other does.
\<close>

theorem key_order_irrelevant_for_content_validator:
  assumes "distinct (map fst mapping)"
    and "mset mapping' = mset mapping"
    and "\<forall>c c'. proto c = proto c' \<and> map_of (props c) = map_of (props c')
           \<longrightarrow> safeParse schema c = safeParse schema c'"
  shows "mapAndValidate baseGet obj mapping' schema = Inr r
         \<longleftrightarrow> mapAndValidate baseGet obj mapping schema = Inr r"
proof -
  from assms(2) have s: "set mapping' = set mapping" by (rule mset_eq_setD)
  from assms(2) have "mset (map fst mapping') = mset (map fst mapping)" by simp
  with assms(1) have d': "distinct (map fst mapping')"
    by (metis mset_eq_imp_distinct_iff)
  show ?thesis
    using mapAndValidate_reordered [OF _ assms(1) d' s assms(3)]
      mapAndValidate_reordered [OF _ d' assms(1) s [symmetric] assms(3)]
    by blast
qed

text \<open>C6 (amended), at a concrete input: an object schema, the mapping and its reverse.\<close>

theorem key_order_irrelevant_for_content_validator_witness:
  "distinct (map fst nameAgeMapping) \<and> mset (rev nameAgeMapping) = mset nameAgeMapping
   \<and> rev nameAgeMapping = [(''age'', Some ageEntry), (''name'', Some nameEntry)]
   \<and> mapAndValidate resolvePath aliceSource (rev nameAgeMapping) nameAgeSchema =
       Inr \<lparr>data = JObj [(''name'', JStr ''Alice''), (''age'', JNum 25)],
            isError = False, errors = None\<rparr>
   \<and> mapAndValidate resolvePath aliceSource nameAgeMapping nameAgeSchema =
       Inr \<lparr>data = JObj [(''name'', JStr ''Alice''), (''age'', JNum 25)],
            isError = False, errors = None\<rparr>"
  using key_order_irrelevant_for_content_validator [of nameAgeMapping "rev nameAgeMapping"
      nameAgeSchema resolvePath aliceSource
      "\<lparr>data = JObj [(''name'', JStr ''Alice''), (''age'', JNum 25)],
        isError = False, errors = None\<rparr>", OF _ _ nameAgeSchema_content_only]
  by (simp add: example_defs)

text \<open>
  C7. Let the entries before \<open>key\<close> yield their values, and let the transform of
  \<open>key\<close> throw \<open>err\<close> on its resolved-or-defaulted value. Then the loop ends with
  \<open>err\<close> and \<open>mapAndValidate\<close> ends with the same \<open>err\<close>: it is not caught, no
  result is produced, and the outcome is the same for every schema, since
  \<open>safeParse\<close> is not reached.
\<close>

theorem transform_fault_propagates:
  assumes "\<forall>k e'. (k, Some e') \<in> set pre \<longrightarrow> (\<exists>v. fieldValue baseGet obj e' = Inr v)"
    and "transform e = Some t"
    and "get baseGet obj (path e) (defaultVal e) = Inr val"
    and "t val = Inl err"
  shows "extractValues baseGet obj (pre @ (key, Some e) # post) emptyObject = Inl err
       \<and> mapAndValidate baseGet obj (pre @ (key, Some e) # post) schema = Inl err"
proof -
  from assms(2,3,4) have "fieldValue baseGet obj e = Inl err"
    by (simp add: fieldValue_def)
  from extractValues_first_fault [OF assms(1) this]
  show ?thesis by (simp add: mapAndValidate_def)
qed

text \<open>
  C7, at a concrete input: the path \<^verbatim>\<open>user.nick\<close> is missing, no default is
  declared and the transform throws on \<^verbatim>\<open>undefined\<close>.
\<close>

theorem transform_fault_propagates_witness:
  "fieldValue resolvePath aliceSource nameEntry = Inr (JStr ''Alice'')
   \<and> transform nickEntry = Some lengthOf
   \<and> get resolvePath aliceSource (path nickEntry) (defaultVal nickEntry) = Inr Undefined
   \<and> lengthOf Undefined = Inl (Thrown (JStr ''TypeError''))
   \<and> faultyMapping = [(''name'', Some nameEntry)] @ (''nickLength'', Some nickEntry) # [(''age'', Some ageEntry)]
   \<and> mapAndValidate resolvePath aliceSource faultyMapping nameAgeSchema = Inl (Thrown (JStr ''TypeError''))
   \<and> mapAndValidate resolvePath aliceSource faultyMapping recordOfNumbers = Inl (Thrown (JStr ''TypeError''))"
  using transform_fault_propagates [of "[(''name'', Some nameEntry)]" resolvePath aliceSource
      nickEntry lengthOf Undefined "Thrown (JStr ''TypeError'')" "''nickLength''"
      "[(''age'', Some ageEntry)]" nameAgeSchema]
  by (simp add: example_defs)

text \<open>
  C8. For the empty mapping the candidate object is empty, and the outcome is the
  tagged outcome of validating the empty object: success carries the validator's
  value, failure carries its issues, and what the validator throws passes through.
\<close>

theorem mapAndValidate_empty_mapping:
  "extractValues baseGet obj [] emptyObject = Inr emptyObject
   \<and> props emptyObject = [] \<and> proto emptyObject = ObjectPrototype
   \<and> mapAndValidate baseGet obj [] schema =
       (case safeParse schema emptyObject of
          Inl err \<Rightarrow> Inl err
        | Inr (ParseSuccess d) \<Rightarrow> Inr \<lparr>data = d, isError = False, errors = None\<rparr>
        | Inr (ParseFailure issues) \<Rightarrow>
            Inr \<lparr>data = Undefined, isError = True, errors = Some issues\<rparr>)"
  by (simp add: mapAndValidate_def emptyObject_def)


end
